theory Spec2Isabelle
  imports Main "HOL-Library.Word" "HOL-Library.Sublist" "HOL-Library.Multiset"
begin

section \<open>Data model\<close>

text \<open>
  Go's \<open>uint32\<close> is a 32-bit word: \<open>+\<close> and \<open>-\<close> wrap modulo \<open>2 ^ 32\<close>.
  Go strings are byte sequences, modelled as \<open>string\<close> (a list of 8-bit characters).
\<close>

type_synonym u32 = "32 word"

text \<open>\<open>cc.Location\<close>: file path, line and column.\<close>

record Location =
  File :: string
  Line :: u32
  Col :: u32

text \<open>\<open>docs.Comment\<close>: the literal text of a comment and where it starts.\<close>

record Comment =
  Lit :: string
  Loc :: Location

text \<open>
  The discriminant of a node of the external parser's tree, as far as the program
  looks at it (\<open>clang.Cursor_VarDecl\<close>, \<open>clang.Cursor_FunctionDecl\<close>,
  \<open>clang.Cursor_Namespace\<close>; every other cursor kind is \<open>Cursor_Other\<close>).
\<close>

datatype CursorKind = Cursor_VarDecl | Cursor_FunctionDecl | Cursor_Namespace | Cursor_Other

text \<open>
  \<open>cc.Node\<close>: the program reads \<open>n.Body.Kind()\<close>, \<open>n.Body.Spelling()\<close>,
  \<open>n.Loc\<close> and \<open>n.Children\<close>.
\<close>

datatype Node = Node (Kind: CursorKind) (Spelling: string) (NLoc: Location) (Children: "Node list")

text \<open>\<open>docs.DocComment\<close>: a declaration and the comment attached to it.\<close>

record DocComment =
  Decl :: Node
  Comment :: Comment

section \<open>Strings\<close>

definition newline :: char where
  "newline = CHR 0x0A"

text \<open>
  \<open>strings.Split(s, "\n")\<close>: the pieces between newlines, one more than there are
  newlines. A byte that is not a newline goes in front of the first piece of the rest; the
  rest always has a first piece, so the last case is never taken.
\<close>

fun Split :: "string \<Rightarrow> string list" where
  "Split [] = [[]]"
| "Split (c # cs) =
     (if c = newline then [] # Split cs
      else (case Split cs of
              l # ls \<Rightarrow> (c # l) # ls
            | [] \<Rightarrow> [[c]]))"

text \<open>\<open>strings.Join(lines, "\n")\<close>.\<close>

fun Join :: "string list \<Rightarrow> string" where
  "Join [] = []"
| "Join [l] = l"
| "Join (l # l' # ls) = l @ newline # Join (l' # ls)"

text \<open>\<open>strings.HasPrefix(s, p)\<close>.\<close>

definition HasPrefix :: "string \<Rightarrow> string \<Rightarrow> bool" where
  "HasPrefix s p = (take (length p) s = p)"

text \<open>\<open>strings.Count(s, "\n")\<close>.\<close>

definition Count :: "string \<Rightarrow> nat" where
  "Count s = length (filter (\<lambda>c. c = newline) s)"

section \<open>Extractor (cdoc2json)\<close>

text \<open>\<open>less\<close>: lexicographic on line, then column.\<close>

definition less_loc :: "Location \<Rightarrow> Location \<Rightarrow> bool" where
  "less_loc a b =
     (if Line a < Line b then True
      else if Line a > Line b then False
      else Col a < Col b)"

text \<open>
  The end location computed in \<open>addDocComments\<close>:
  \<open>commEndLoc := comment.Loc; commEndLoc.Line += uint32(strings.Count(comment.Lit, "\n"))\<close>.
\<close>

definition commEndLoc :: "Comment \<Rightarrow> Location" where
  "commEndLoc comment = (Loc comment)\<lparr>Line := Line (Loc comment) + of_nat (Count (Lit comment))\<rparr>"

text \<open>
  \<open>addDocComments\<close>: the outer loop ranges over the declarations, the inner loop moves
  the comment cursor \<open>i\<close>; the second argument is the part of \<open>comments\<close> from the cursor
  on. \<open>continue loop\<close> goes to the next declaration and keeps the cursor; otherwise the
  cursor moves on and the same declaration is looked at again. When the cursor has
  reached the end, no declaration enters the inner loop any more.
\<close>

fun addDocComments :: "Node list \<Rightarrow> Comment list \<Rightarrow> DocComment list" where
  "addDocComments [] comments = []"
| "addDocComments (decl # decls) [] = []"
| "addDocComments (decl # decls) (comment # comments) =
     (if less_loc (NLoc decl) (commEndLoc comment) then
        addDocComments decls (comment # comments)
      else
        (if Line (NLoc decl) - Line (commEndLoc comment) \<le> 1
         then [\<lparr>Decl = decl, Comment = comment\<rparr>] else [])
        @ addDocComments (decl # decls) comments)"

text \<open>\<open>isConsequtiveLineComments\<close>; the arithmetic is \<open>uint32\<close> arithmetic.\<close>

definition isConsequtiveLineComments :: "Comment \<Rightarrow> Comment \<Rightarrow> bool" where
  "isConsequtiveLineComments a b =
     (if \<not> HasPrefix (Lit a) ''//'' then False
      else if \<not> HasPrefix (Lit b) ''//'' then False
      else Line (Loc a) + of_nat (Count (Lit a)) = Line (Loc b) - 1)"

definition mergeLineComment :: "Comment \<Rightarrow> Comment \<Rightarrow> Comment" where
  "mergeLineComment a b = a\<lparr>Lit := Lit a @ newline # Lit b\<rparr>"

text \<open>
  The inner loop of \<open>mergeLineComments\<close>, \<open>for j := i + 1; j < len(comments); j++\<close>:
  the first argument is \<open>comments[j:]\<close>, the state is the pair of \<open>a\<close> and the outer
  index \<open>i\<close>. The loop has no \<open>break\<close>: it runs to the end of \<open>comments\<close>, and \<open>i\<close> is
  incremented once for each merge.
\<close>

fun mergeInner :: "Comment list \<Rightarrow> Comment \<Rightarrow> nat \<Rightarrow> Comment \<times> nat" where
  "mergeInner [] a i = (a, i)"
| "mergeInner (b # bs) a i =
     (if isConsequtiveLineComments a b
      then mergeInner bs (mergeLineComment a b) (i + 1)
      else mergeInner bs a i)"

text \<open>
  The outer loop of \<open>mergeLineComments\<close> from index \<open>i\<close> on: \<open>a := comments[i]\<close>, the
  inner loop over \<open>comments[i+1:]\<close>, \<open>new = append(new, a)\<close>, then \<open>i++\<close> on the index the
  inner loop left. The result is what is appended to \<open>new\<close> from \<open>i\<close> on.
\<close>

function mergeFrom :: "Comment list \<Rightarrow> nat \<Rightarrow> Comment list" where
  "mergeFrom comments i =
     (if i < length comments then
        (case mergeInner (drop (i + 1) comments) (comments ! i) i of
           (a, i') \<Rightarrow> a # mergeFrom comments (i' + 1))
      else [])"
  by pat_completeness auto
termination
proof (relation "measure (\<lambda>(comments, i). length comments - i)")
  show "wf (measure (\<lambda>(comments, i). length comments - i))" by simp
next
  fix comments :: "Comment list" and i :: nat and a :: Comment and i' :: nat
  assume lt: "i < length comments"
    and p: "(a, i') = mergeInner (drop (i + 1) comments) (comments ! i) i"
  have idx: "k \<le> snd (mergeInner bs c k)" for bs c k
  proof (induction bs arbitrary: c k)
    case Nil
    show ?case by simp
  next
    case (Cons b bs)
    have "k \<le> snd (mergeInner bs c k)" by (rule Cons.IH)
    moreover have "k + 1 \<le> snd (mergeInner bs (mergeLineComment c b) (k + 1))" by (rule Cons.IH)
    ultimately show ?case by simp
  qed
  have "i \<le> snd (mergeInner (drop (i + 1) comments) (comments ! i) i)"
    by (rule idx)
  then have "i \<le> i'" using p [symmetric] by simp
  with lt show "((comments, i' + 1), comments, i) \<in> measure (\<lambda>(comments, i). length comments - i)"
    by simp
qed

definition mergeLineComments :: "Comment list \<Rightarrow> Comment list" where
  "mergeLineComments comments = mergeFrom comments 0"

text \<open>
  Modelled from the spec: \<open>cc.Walk\<close> of the external parser package is not part of the
  sources; the spec's contract of the parser is a linear top-down traversal that visits
  every node exactly once. \<open>Walk\<close> lists the nodes in the order they are visited.
\<close>

fun Walk :: "Node \<Rightarrow> Node list" where
  "Walk (Node k s l cs) = Node k s l cs # concat (map Walk cs)"

text \<open>
  \<open>sort.Slice(decls, less)\<close>: an insertion sort by \<open>less\<close> on the locations. Go's
  \<open>sort.Slice\<close> is not stable and leaves the order of declarations at equal positions
  open; the model fixes one such order.
\<close>

fun insertDecl :: "Node \<Rightarrow> Node list \<Rightarrow> Node list" where
  "insertDecl n [] = [n]"
| "insertDecl n (m # ms) =
     (if less_loc (NLoc m) (NLoc n) then m # insertDecl n ms else n # m # ms)"

definition sortDecls :: "Node list \<Rightarrow> Node list" where
  "sortDecls ns = foldr insertDecl ns []"

definition isDecl :: "Node \<Rightarrow> bool" where
  "isDecl n = (case Kind n of Cursor_VarDecl \<Rightarrow> True | Cursor_FunctionDecl \<Rightarrow> True | _ \<Rightarrow> False)"

text \<open>\<open>findDecls\<close>: the visitor keeps the variable and function declarations, then they are sorted.\<close>

definition findDecls :: "Node \<Rightarrow> Node list" where
  "findDecls root = sortDecls (filter isDecl (Walk root))"

text \<open>
  The mapping from identifier to comment, \<open>map[string]string\<close>, and the warnings written
  to the \<open>warn\<close> logger.
\<close>

type_synonym IdentMap = "string \<rightharpoonup> string"

datatype Warning = AlreadyPresent (w_ident: string) (w_old: string) (w_new: string)

text \<open>
  The body of the loop over \<open>docComments\<close> in \<open>parse\<close>: the warning is written when the
  lookup finds the identifier, then the new comment is stored.
\<close>

definition storeDocComment :: "IdentMap \<times> Warning list \<Rightarrow> DocComment \<Rightarrow> IdentMap \<times> Warning list" where
  "storeDocComment st docComment =
     (let ident = Spelling (Decl docComment);
          new = Lit (Comment docComment);
          ws = (case fst st ident of
                  Some old \<Rightarrow> snd st @ [AlreadyPresent ident old new]
                | None \<Rightarrow> snd st)
      in ((fst st)(ident \<mapsto> new), ws))"

definition storeDocComments :: "IdentMap \<times> Warning list \<Rightarrow> DocComment list \<Rightarrow> IdentMap \<times> Warning list" where
  "storeDocComments st docComments = foldl storeDocComment st docComments"

text \<open>
  \<open>parse\<close>: \<open>parseComments\<close> (reading and scanning the file) and \<open>cc.ParseFile\<close> (the
  external parser) are parameters, each giving an error or its result for a path.
\<close>

definition parse ::
  "(string \<Rightarrow> 'e + Comment list) \<Rightarrow> (string \<Rightarrow> 'e + Node) \<Rightarrow> string \<Rightarrow>
   IdentMap \<times> Warning list \<Rightarrow> 'e + IdentMap \<times> Warning list" where
  "parse parseComments ParseFile srcPath st =
     (case parseComments srcPath of
        Inl err \<Rightarrow> Inl err
      | Inr comments \<Rightarrow>
          (case ParseFile srcPath of
             Inl err \<Rightarrow> Inl err
           | Inr root \<Rightarrow>
               Inr (storeDocComments st
                      (addDocComments (findDecls root) (mergeLineComments comments)))))"

text \<open>
  How a run of the extractor ends: \<open>log.Fatalf\<close> (the message is logged and the process
  exits with status 1), or \<open>main\<close> returns after writing the mapping.
\<close>

datatype 'e Exit = Fatal 'e | Written IdentMap "Warning list"

text \<open>The loop over \<open>flag.Args()\<close> in \<open>main\<close>: an error of \<open>parse\<close> goes to \<open>log.Fatalf\<close>.\<close>

fun parseAll ::
  "(string \<Rightarrow> 'e + Comment list) \<Rightarrow> (string \<Rightarrow> 'e + Node) \<Rightarrow> string list \<Rightarrow>
   IdentMap \<times> Warning list \<Rightarrow> 'e + IdentMap \<times> Warning list" where
  "parseAll parseComments ParseFile [] st = Inr st"
| "parseAll parseComments ParseFile (srcPath # srcPaths) st =
     (case parse parseComments ParseFile srcPath st of
        Inl err \<Rightarrow> Inl err
      | Inr st' \<Rightarrow> parseAll parseComments ParseFile srcPaths st')"

text \<open>
  \<open>main\<close> of the extractor; \<open>jsonutil.WriteFile\<close> is a parameter that gives the error
  of writing the mapping, if any.
\<close>

definition main_cdoc2json ::
  "(string \<Rightarrow> 'e + Comment list) \<Rightarrow> (string \<Rightarrow> 'e + Node) \<Rightarrow> (IdentMap \<Rightarrow> 'e option) \<Rightarrow>
   string list \<Rightarrow> 'e Exit" where
  "main_cdoc2json parseComments ParseFile WriteFile srcPaths =
     (case parseAll parseComments ParseFile srcPaths (Map.empty, []) of
        Inl err \<Rightarrow> Fatal err
      | Inr (commentFromIdent, ws) \<Rightarrow>
          (case WriteFile commentFromIdent of
             Some err \<Rightarrow> Fatal err
           | None \<Rightarrow> Written commentFromIdent ws))"

section \<open>Injector (addcdocs)\<close>

text \<open>\<open>normalizeComment\<close>: \<open>line[1:]\<close> drops the first byte of a line that starts with \<open>///\<close>.\<close>

definition normalizeLine :: "string \<Rightarrow> string" where
  "normalizeLine line = (if HasPrefix line ''///'' then drop 1 line else line)"

definition normalizeComment :: "string \<Rightarrow> string" where
  "normalizeComment comment = Join (map normalizeLine (Split comment))"

text \<open>
  \<open>findGlobalDecls\<close>: the first loop leaves \<open>root\<close> at the last child of the file's root
  that is a namespace (the loop ranges over the children of the file's root, evaluated
  once); the second loop keeps the declarations among the children of that node.
\<close>

definition findGlobalDecls :: "Node \<Rightarrow> Node list" where
  "findGlobalDecls fileRoot =
     (let root = foldl (\<lambda>root child. if Kind child = Cursor_Namespace then child else root)
                   fileRoot (Children fileRoot)
      in filter isDecl (Children root))"

text \<open>
  The first loop of \<open>addComments\<close>: the map from line number to normalized comment; a
  later declaration on the same line overwrites.
\<close>

definition lineComments :: "IdentMap \<Rightarrow> Node list \<Rightarrow> (u32 \<rightharpoonup> string)" where
  "lineComments docComments decls =
     foldl (\<lambda>comments decl.
              case docComments (Spelling decl) of
                Some comment \<Rightarrow> comments(Line (NLoc decl) \<mapsto> normalizeComment comment)
              | None \<Rightarrow> comments)
       Map.empty decls"

text \<open>
  The second loop of \<open>addComments\<close>, as the list of strings it writes with
  \<open>fmt.Fprintf(newSrc, "%s\n", ...)\<close>; \<open>i\<close> is the index of the first line of the list and
  \<open>lineNr := uint32(i + 1)\<close>.
\<close>

fun emitLines :: "(u32 \<rightharpoonup> string) \<Rightarrow> nat \<Rightarrow> string list \<Rightarrow> string list" where
  "emitLines comments i [] = []"
| "emitLines comments i (line # lines) =
     (case comments (of_nat (i + 1)) of Some comment \<Rightarrow> [comment] | None \<Rightarrow> [])
     @ line # emitLines comments (i + 1) lines"

text \<open>What the builder \<open>newSrc\<close> holds: every written string followed by a newline.\<close>

definition written :: "string list \<Rightarrow> string" where
  "written ss = concat (map (\<lambda>s. s @ [newline]) ss)"

text \<open>
  \<open>addComments\<close>, on the bytes of the source file, the root of its parse tree and the
  mapping from identifier to comment.
\<close>

definition addComments :: "string \<Rightarrow> Node \<Rightarrow> IdentMap \<Rightarrow> string \<times> bool" where
  "addComments buf fileRoot docComments =
     (let oldSrc = buf;
          lines = Split oldSrc;
          comments = lineComments docComments (findGlobalDecls fileRoot);
          newSrc = written (emitLines comments 0 lines);
          change = (oldSrc \<noteq> newSrc)
      in (newSrc, change))"

section \<open>The rules in words\<close>

text \<open>
  A declaration documents a comment when its start line is the comment's end line or the
  line after it.
\<close>

definition adopts :: "Node \<Rightarrow> Comment \<Rightarrow> bool" where
  "adopts decl comment =
     (uint (Line (NLoc decl)) = uint (Line (commEndLoc comment)) \<or>
      uint (Line (NLoc decl)) = uint (Line (commEndLoc comment)) + 1)"

text \<open>
  The association rule, comment by comment: a comment goes to the first declaration that
  does not lie before the comment's end location, and the two are paired when that
  declaration adopts the comment; a comment with no such declaration is dropped.
\<close>

fun associate :: "Node list \<Rightarrow> Comment list \<Rightarrow> DocComment list" where
  "associate decls [] = []"
| "associate decls (comment # comments) =
     (case find (\<lambda>decl. \<not> less_loc (NLoc decl) (commEndLoc comment)) decls of
        Some decl \<Rightarrow> if adopts decl comment then [\<lparr>Decl = decl, Comment = comment\<rparr>] else []
      | None \<Rightarrow> [])
     @ associate decls comments"

text \<open>Comments in the order of their end locations.\<close>

definition endSorted :: "Comment list \<Rightarrow> bool" where
  "endSorted comments = sorted_wrt (\<lambda>a b. \<not> less_loc (commEndLoc b) (commEndLoc a)) comments"

text \<open>Ascending source positions: lexicographic on line, then column.\<close>

definition posLe :: "Location \<Rightarrow> Location \<Rightarrow> bool" where
  "posLe a b = (Line a < Line b \<or> (Line a = Line b \<and> Col a \<le> Col b))"

text \<open>
  The node whose children \<open>findGlobalDecls\<close> looks at: the last namespace among the
  children of the file's root, or the file's root when it has no namespace child.
\<close>

definition globalScope :: "Node \<Rightarrow> Node" where
  "globalScope fileRoot =
     (case filter (\<lambda>child. Kind child = Cursor_Namespace) (Children fileRoot) of
        [] \<Rightarrow> fileRoot
      | n # ns \<Rightarrow> last (n # ns))"

text \<open>
  The mapping the extractor builds for one file from an empty mapping, given the comments
  the scanner found and the root of the tree the external parser returned.
\<close>

definition extracted :: "Comment list \<Rightarrow> Node \<Rightarrow> IdentMap" where
  "extracted comments root =
     fst (storeDocComments (Map.empty, [])
            (addDocComments (findDecls root) (mergeLineComments comments)))"

text \<open>
  The round trip of one file: the insertion map \<open>addComments\<close> builds from the mapping
  extracted from the same file, and the strings it then writes for the lines of \<open>buf\<close>.
\<close>

definition roundtripInsertions :: "Comment list \<Rightarrow> Node \<Rightarrow> (u32 \<rightharpoonup> string)" where
  "roundtripInsertions comments root =
     lineComments (extracted comments root) (findGlobalDecls root)"

definition roundtripLines :: "Comment list \<Rightarrow> Node \<Rightarrow> string \<Rightarrow> string list" where
  "roundtripLines comments root buf = emitLines (roundtripInsertions comments root) 0 (Split buf)"

section \<open>Example inputs\<close>

definition at :: "u32 \<Rightarrow> u32 \<Rightarrow> Location" where
  "at l c = \<lparr>File = ''foo.h'', Line = l, Col = c\<rparr>"

definition translationUnit :: "Node list \<Rightarrow> Node" where
  "translationUnit children = Node Cursor_Other ''foo.h'' (at 0 0) children"

text \<open>
  A line comment on line 1, and on line 2 a block comment followed by a declaration:
  \<^verbatim>\<open>//a\<close> and \<^verbatim>\<open>/* y */ int x;\<close>.
\<close>

definition comment_a :: Comment where
  "comment_a = \<lparr>Lit = ''//a'', Loc = at 1 1\<rparr>"

definition comment_y :: Comment where
  "comment_y = \<lparr>Lit = ''/* y */'', Loc = at 2 1\<rparr>"

definition decl_x :: Node where
  "decl_x = Node Cursor_VarDecl ''x'' (at 2 9) []"

text \<open>
  A line comment on line 1, and on line 2 a block comment followed by a line comment:
  \<^verbatim>\<open>//a\<close> and \<^verbatim>\<open>/* y */ //b\<close>.
\<close>

definition comment_b :: Comment where
  "comment_b = \<lparr>Lit = ''//b'', Loc = at 2 9\<rparr>"

text \<open>A comment of two lines that starts on line 1, and a declaration on line 3.\<close>

definition comment_two_lines :: Comment where
  "comment_two_lines = \<lparr>Lit = ''// one\<newline>// two'', Loc = at 1 1\<rparr>"

definition decl_line3 :: Node where
  "decl_line3 = Node Cursor_FunctionDecl ''f'' (at 3 1) []"

text \<open>
  The scenario of the documentation: \<^verbatim>\<open>// does foo\<close> on line 1 and
  \<^verbatim>\<open>int foo() {}\<close> on line 2.
\<close>

definition foo_src :: string where
  "foo_src = ''// does foo\<newline>int foo() {}\<newline>''"

definition foo_comments :: "Comment list" where
  "foo_comments = [\<lparr>Lit = ''// does foo'', Loc = at 1 1\<rparr>]"

definition foo_decl :: Node where
  "foo_decl = Node Cursor_FunctionDecl ''foo'' (at 2 1) []"

definition foo_root :: Node where
  "foo_root = translationUnit [foo_decl]"

text \<open>A file with one declaration and no comment, and mappings for it.\<close>

definition plain_src :: string where
  "plain_src = ''int x;\<newline>''"

definition plain_root :: Node where
  "plain_root = translationUnit [Node Cursor_VarDecl ''x'' (at 1 5) []]"

definition no_docs :: IdentMap where
  "no_docs = Map.empty"

definition other_docs :: IdentMap where
  "other_docs = [''y'' \<mapsto> ''// about y'']"

text \<open>A function with a local variable, and two globals listed against their positions.\<close>

definition local_y :: Node where
  "local_y = Node Cursor_VarDecl ''y'' (at 2 3) []"

definition func_f :: Node where
  "func_f = Node Cursor_FunctionDecl ''f'' (at 1 1) [Node Cursor_Other ''body'' (at 1 9) [local_y]]"

definition nested_root :: Node where
  "nested_root = translationUnit [func_f]"

definition global_late :: Node where
  "global_late = Node Cursor_VarDecl ''b'' (at 7 1) []"

definition global_early :: Node where
  "global_early = Node Cursor_VarDecl ''a'' (at 3 1) []"

definition unordered_root :: Node where
  "unordered_root = translationUnit [global_late, global_early]"

definition namespace_root :: Node where
  "namespace_root = translationUnit [Node Cursor_Namespace ''ns'' (at 1 1) [global_early, func_f]]"

text \<open>A mapping that holds a comment for \<open>foo\<close>, and the same comment found again.\<close>

definition foo_docs :: IdentMap where
  "foo_docs = [''foo'' \<mapsto> ''// does foo'']"

definition foo_docComment :: DocComment where
  "foo_docComment = \<lparr>Decl = foo_decl, Comment = \<lparr>Lit = ''// does foo'', Loc = at 1 1\<rparr>\<rparr>"

text \<open>
  A run over two files: the scanner fails on the first; the second has no comment and an
  empty tree.
\<close>

definition scan_bad_first :: "string \<Rightarrow> string + Comment list" where
  "scan_bad_first srcPath = (if srcPath = ''bad.h'' then Inl ''open bad.h: no such file'' else Inr [])"

definition parser_ok :: "string \<Rightarrow> string + Node" where
  "parser_ok srcPath = Inr (translationUnit [])"

definition write_ok :: "IdentMap \<Rightarrow> string option" where
  "write_ok m = None"

section \<open>Splitting and joining lines\<close>

lemma Split_not_Nil: "Split s \<noteq> []"
  by (induction s) (auto split: list.splits)

lemma Split_no_newline: "l \<in> set (Split s) \<Longrightarrow> newline \<notin> set l"
proof (induction s arbitrary: l)
  case Nil
  then show ?case by simp
next
  case (Cons c cs)
  obtain h t where ht: "Split cs = h # t"
    using Split_not_Nil [of cs] by (cases "Split cs") auto
  have h: "newline \<notin> set h" and t: "\<And>k. k \<in> set t \<Longrightarrow> newline \<notin> set k"
    using Cons.IH ht by auto
  show ?case
  proof (cases "c = newline")
    case True
    with Cons.prems ht have "l = [] \<or> l = h \<or> l \<in> set t" by simp
    with h t show ?thesis by auto
  next
    case False
    with Cons.prems ht have "l = c # h \<or> l \<in> set t" by simp
    with False h t show ?thesis by auto
  qed
qed

lemma Split_line: "newline \<notin> set l \<Longrightarrow> Split l = [l]"
  by (induction l) auto

lemma Split_append: "newline \<notin> set l \<Longrightarrow> Split (l @ newline # s) = l # Split s"
  by (induction l) auto

lemma Split_Join:
  "ls \<noteq> [] \<Longrightarrow> \<forall>l \<in> set ls. newline \<notin> set l \<Longrightarrow> Split (Join ls) = ls"
proof (induction ls rule: Join.induct)
  case 1
  then show ?case by simp
next
  case (2 l)
  then show ?case by (simp add: Split_line)
next
  case (3 l l' ls)
  then show ?case by (simp add: Split_append)
qed

lemma Join_Split: "Join (Split s) = s"
proof (induction s)
  case Nil
  show ?case by simp
next
  case (Cons c cs)
  obtain h t where ht: "Split cs = h # t" using Split_not_Nil [of cs] by (cases "Split cs") auto
  show ?case
  proof (cases "c = newline")
    case True
    with Cons ht show ?thesis by simp
  next
    case False
    with Cons ht show ?thesis by (cases t) auto
  qed
qed

lemma written_Split: "written (Split s) = s @ [newline]"
proof (induction s)
  case Nil
  show ?case by (simp add: written_def)
next
  case (Cons c cs)
  obtain h t where ht: "Split cs = h # t" using Split_not_Nil [of cs] by (cases "Split cs") auto
  with Cons show ?case by (auto simp: written_def)
qed

lemma normalizeLine_no_newline: "newline \<notin> set l \<Longrightarrow> newline \<notin> set (normalizeLine l)"
  by (auto simp: normalizeLine_def dest: in_set_dropD)

lemma Split_normalizeComment: "Split (normalizeComment comment) = map normalizeLine (Split comment)"
  unfolding normalizeComment_def
  by (rule Split_Join) (auto simp: Split_not_Nil dest: Split_no_newline normalizeLine_no_newline)

section \<open>The comment cursor\<close>

lemma less_loc_trans_le:
  "less_loc d a \<Longrightarrow> \<not> less_loc b a \<Longrightarrow> less_loc d b"
  by (auto simp: less_loc_def split: if_splits)

lemma not_less_loc_Line: "\<not> less_loc a b \<Longrightarrow> Line b \<le> Line a"
  by (auto simp: less_loc_def split: if_splits)

lemma word_diff_le_1:
  fixes d e :: u32
  assumes "e \<le> d"
  shows "d - e \<le> 1 \<longleftrightarrow> (uint d = uint e \<or> uint d = uint e + 1)"
proof -
  from assms have le: "uint e \<le> uint d" by (simp add: word_le_def)
  then have eq: "uint (d - e) = uint d - uint e" by (simp add: uint_sub_lem)
  have "d - e \<le> 1 \<longleftrightarrow> uint (d - e) \<le> 1" by (simp add: word_le_def)
  with le eq show ?thesis by auto
qed

lemma adopts_iff:
  "\<not> less_loc (NLoc decl) (commEndLoc comment) \<Longrightarrow>
     Line (NLoc decl) - Line (commEndLoc comment) \<le> 1 \<longleftrightarrow> adopts decl comment"
  unfolding adopts_def by (rule word_diff_le_1) (rule not_less_loc_Line)

lemma associate_skip:
  "\<forall>c \<in> set comments. less_loc (NLoc decl) (commEndLoc c) \<Longrightarrow>
     associate (decl # decls) comments = associate decls comments"
  by (induction comments) auto

lemma addDocComments_associate:
  "endSorted comments \<Longrightarrow> addDocComments decls comments = associate decls comments"
proof (induction decls comments rule: addDocComments.induct)
  case (1 comments)
  show ?case by (induction comments) auto
next
  case (2 decl decls)
  show ?case by simp
next
  case (3 decl decls comment comments)
  show ?case
  proof (cases "less_loc (NLoc decl) (commEndLoc comment)")
    case True
    have "\<forall>c \<in> set (comment # comments). less_loc (NLoc decl) (commEndLoc c)"
      using True "3.prems" by (auto simp: endSorted_def intro: less_loc_trans_le)
    then have "associate (decl # decls) (comment # comments) = associate decls (comment # comments)"
      by (rule associate_skip)
    moreover have "addDocComments decls (comment # comments) = associate decls (comment # comments)"
      using True "3.prems" by (rule "3.IH"(1))
    ultimately show ?thesis using True by simp
  next
    case False
    have "endSorted comments" using "3.prems" by (simp add: endSorted_def)
    with False have "addDocComments (decl # decls) comments = associate (decl # decls) comments"
      by (rule "3.IH"(2))
    with False show ?thesis by (simp add: adopts_iff)
  qed
qed

lemma subseq_addDocComments: "subseq (map Comment (addDocComments decls comments)) comments"
  by (induction decls comments rule: addDocComments.induct) auto

lemma addDocComments_sound:
  "dc \<in> set (addDocComments decls comments) \<Longrightarrow>
     Decl dc \<in> set decls \<and> Comment dc \<in> set comments \<and>
     \<not> less_loc (NLoc (Decl dc)) (commEndLoc (Comment dc)) \<and> adopts (Decl dc) (Comment dc)"
  by (induction decls comments rule: addDocComments.induct)
     (auto simp: adopts_iff split: if_splits)

section \<open>Sorting and selecting declarations\<close>

lemma posLe_iff: "posLe a b \<longleftrightarrow> \<not> less_loc b a"
  by (auto simp: posLe_def less_loc_def)

lemma set_insertDecl: "set (insertDecl n ns) = insert n (set ns)"
  by (induction ns) auto

lemma mset_insertDecl: "mset (insertDecl n ns) = add_mset n (mset ns)"
  by (induction ns) auto

lemma sorted_insertDecl:
  "sorted_wrt (\<lambda>a b. posLe (NLoc a) (NLoc b)) ns \<Longrightarrow>
     sorted_wrt (\<lambda>a b. posLe (NLoc a) (NLoc b)) (insertDecl n ns)"
proof (induction ns)
  case Nil
  show ?case by simp
next
  case (Cons m ms)
  show ?case
  proof (cases "less_loc (NLoc m) (NLoc n)")
    case True
    then have "posLe (NLoc m) (NLoc n)" by (auto simp: posLe_def less_loc_def split: if_splits)
    with True Cons show ?thesis by (auto simp: set_insertDecl)
  next
    case False
    then have mn: "posLe (NLoc n) (NLoc m)" by (simp add: posLe_iff)
    have "posLe (NLoc n) (NLoc k)" if "k \<in> set ms" for k
    proof -
      from that Cons.prems have "posLe (NLoc m) (NLoc k)" by simp
      with mn show ?thesis by (auto simp: posLe_def)
    qed
    with False mn Cons.prems show ?thesis by auto
  qed
qed

lemma mset_sortDecls: "mset (sortDecls ns) = mset ns"
  unfolding sortDecls_def by (induction ns) (auto simp: mset_insertDecl)

lemma sorted_sortDecls: "sorted_wrt (\<lambda>a b. posLe (NLoc a) (NLoc b)) (sortDecls ns)"
  unfolding sortDecls_def by (induction ns) (auto intro: sorted_insertDecl)

lemma foldl_last_namespace:
  "foldl (\<lambda>root child. if Kind child = Cursor_Namespace then child else root) r cs =
     (case filter (\<lambda>child. Kind child = Cursor_Namespace) cs of [] \<Rightarrow> r | n # ns \<Rightarrow> last (n # ns))"
proof (induction cs arbitrary: r)
  case Nil
  show ?case by simp
next
  case (Cons c cs)
  show ?case by (simp add: Cons.IH split: list.splits)
qed

lemma findGlobalDecls_scope: "findGlobalDecls root = filter isDecl (Children (globalScope root))"
  by (simp add: findGlobalDecls_def globalScope_def foldl_last_namespace)

section \<open>Storing and inserting comments\<close>

lemma emitLines_empty: "emitLines Map.empty i lines = lines"
  by (induction lines arbitrary: i) auto

lemma emitLines_length: "length lines \<le> length (emitLines comments i lines)"
proof (induction lines arbitrary: i)
  case Nil
  show ?case by simp
next
  case (Cons line lines)
  have "length lines \<le> length (emitLines comments (i + 1) lines)" by (rule Cons.IH)
  then show ?case by (simp split: option.splits)
qed

lemma emitLines_subseq: "subseq lines (emitLines comments i lines)"
proof (induction lines arbitrary: i)
  case Nil
  show ?case by simp
next
  case (Cons line lines)
  have "subseq lines (emitLines comments (i + 1) lines)" by (rule Cons.IH)
  then show ?case by (auto split: option.splits)
qed

lemma emitLines_same_iff:
  "emitLines comments i lines = lines \<longleftrightarrow>
     (\<forall>j < length lines. comments (of_nat (i + j + 1)) = None)"
proof (induction lines arbitrary: i)
  case Nil
  show ?case by simp
next
  case (Cons line lines)
  have IH: "emitLines comments (i + 1) lines = lines \<longleftrightarrow>
     (\<forall>j < length lines. comments (of_nat (i + 1 + j + 1)) = None)" by (rule Cons.IH)
  have split: "(\<forall>j < length (line # lines). comments (of_nat (i + j + 1)) = None) \<longleftrightarrow>
     comments (of_nat (i + 1)) = None \<and> (\<forall>j < length lines. comments (of_nat (i + 1 + j + 1)) = None)"
    by (simp add: All_less_Suc2 add.commute add.left_commute)
  show ?case
  proof (cases "comments (of_nat (i + 1))")
    case None
    then have "emitLines comments i (line # lines) = line # emitLines comments (i + 1) lines"
      by simp
    with None IH split show ?thesis by simp
  next
    case (Some c)
    then have "emitLines comments i (line # lines) = c # line # emitLines comments (i + 1) lines"
      by simp
    moreover have "length lines \<le> length (emitLines comments (i + 1) lines)"
      by (rule emitLines_length)
    ultimately have "length (emitLines comments i (line # lines)) \<noteq> length (line # lines)"
      by simp
    then have lhs: "emitLines comments i (line # lines) \<noteq> line # lines" by metis
    have rhs: "\<not> (\<forall>j < length (line # lines). comments (of_nat (i + j + 1)) = None)"
    proof
      assume "\<forall>j < length (line # lines). comments (of_nat (i + j + 1)) = None"
      then have "0 < length (line # lines) \<longrightarrow> comments (of_nat (i + 0 + 1)) = None"
        by (rule spec)
      with Some show False by simp
    qed
    show ?thesis
    proof
      assume "emitLines comments i (line # lines) = line # lines"
      with lhs show "\<forall>j < length (line # lines). comments (of_nat (i + j + 1)) = None"
        by contradiction
    next
      assume "\<forall>j < length (line # lines). comments (of_nat (i + j + 1)) = None"
      with rhs show "emitLines comments i (line # lines) = line # lines"
        by contradiction
    qed
  qed
qed

lemma lineComments_foldl_Some:
  "foldl (\<lambda>comments decl.
            case docComments (Spelling decl) of
              Some comment \<Rightarrow> comments(Line (NLoc decl) \<mapsto> normalizeComment comment)
            | None \<Rightarrow> comments) init decls l = Some c \<Longrightarrow>
   init l = Some c \<or>
   (\<exists>decl \<in> set decls. \<exists>comment. docComments (Spelling decl) = Some comment \<and>
      Line (NLoc decl) = l \<and> c = normalizeComment comment)"
proof (induction decls arbitrary: init)
  case Nil
  then show ?case by simp
next
  case (Cons decl decls)
  from Cons.IH [OF Cons.prems [simplified]] show ?case
    by (auto split: option.splits if_splits)
qed

lemma lineComments_Some:
  "lineComments docComments decls l = Some c \<Longrightarrow>
   \<exists>decl \<in> set decls. \<exists>comment. docComments (Spelling decl) = Some comment \<and>
      Line (NLoc decl) = l \<and> c = normalizeComment comment"
  unfolding lineComments_def by (drule lineComments_foldl_Some) simp

lemma lineComments_foldl_dom:
  "init l \<noteq> None \<or>
   (\<exists>decl \<in> set decls. docComments (Spelling decl) \<noteq> None \<and> Line (NLoc decl) = l) \<Longrightarrow>
   foldl (\<lambda>comments decl.
            case docComments (Spelling decl) of
              Some comment \<Rightarrow> comments(Line (NLoc decl) \<mapsto> normalizeComment comment)
            | None \<Rightarrow> comments) init decls l \<noteq> None"
proof (induction decls arbitrary: init)
  case Nil
  then show ?case by simp
next
  case (Cons decl decls)
  show ?case
    unfolding foldl_Cons
  proof (rule Cons.IH)
    from Cons.prems
    show "(case docComments (Spelling decl) of
             Some comment \<Rightarrow> init(Line (NLoc decl) \<mapsto> normalizeComment comment)
           | None \<Rightarrow> init) l \<noteq> None \<or>
          (\<exists>decl \<in> set decls. docComments (Spelling decl) \<noteq> None \<and> Line (NLoc decl) = l)"
      by (auto split: option.splits)
  qed
qed

lemma lineComments_dom:
  "decl \<in> set decls \<Longrightarrow> docComments (Spelling decl) \<noteq> None \<Longrightarrow>
     lineComments docComments decls (Line (NLoc decl)) \<noteq> None"
  unfolding lineComments_def by (rule lineComments_foldl_dom) blast

lemma lineComments_no_match:
  "\<forall>decl \<in> set decls. docComments (Spelling decl) = None \<Longrightarrow>
     lineComments docComments decls = Map.empty"
proof (rule ext)
  fix l
  assume a: "\<forall>decl \<in> set decls. docComments (Spelling decl) = None"
  show "lineComments docComments decls l = None"
  proof (cases "lineComments docComments decls l")
    case None
    then show ?thesis .
  next
    case (Some c)
    from lineComments_Some [OF Some] a show ?thesis by auto
  qed
qed

lemma storeDocComments_Some:
  "fst (storeDocComments st docComments) ident = Some lit \<Longrightarrow>
   fst st ident = Some lit \<or>
   (\<exists>dc \<in> set docComments. Spelling (Decl dc) = ident \<and> Lit (Comment dc) = lit)"
  unfolding storeDocComments_def
proof (induction docComments arbitrary: st)
  case Nil
  then show ?case by simp
next
  case (Cons dc dcs)
  from Cons.IH [OF Cons.prems [simplified]] show ?case
    by (auto simp: storeDocComment_def Let_def split: if_splits)
qed

lemma extracted_Some:
  "extracted comments root ident = Some lit \<Longrightarrow>
   \<exists>dc \<in> set (addDocComments (findDecls root) (mergeLineComments comments)).
      Spelling (Decl dc) = ident \<and> Lit (Comment dc) = lit"
  unfolding extracted_def by (drule storeDocComments_Some) simp

lemma addComments_written:
  "fst (addComments buf fileRoot docComments) =
     written (emitLines (lineComments docComments (findGlobalDecls fileRoot)) 0 (Split buf))"
  by (simp add: addComments_def Let_def)

lemma parseAll_append:
  "parseAll pc pf (ps @ qs) st =
     (case parseAll pc pf ps st of Inl err \<Rightarrow> Inl err | Inr st' \<Rightarrow> parseAll pc pf qs st')"
  by (induction ps arbitrary: st) (auto split: sum.splits)

lemmas example_defs =
  at_def translationUnit_def comment_a_def comment_y_def comment_b_def decl_x_def
  comment_two_lines_def decl_line3_def foo_src_def foo_comments_def foo_decl_def foo_root_def
  plain_src_def plain_root_def no_docs_def other_docs_def local_y_def func_f_def
  nested_root_def global_late_def global_early_def unordered_root_def namespace_root_def
  foo_docs_def foo_docComment_def scan_bad_first_def parser_ok_def write_ok_def

lemmas loc_defs = less_loc_def commEndLoc_def Count_def newline_def adopts_def

section \<open>Claims\<close>

subsection \<open>C1: which comments a declaration gets\<close>

text \<open>
  C1, as amended. For comments in the order of their end locations, \<open>addDocComments\<close>
  gives every comment to the first declaration that does not lie before the comment's end
  location, and pairs the two when the declaration's start line is the comment's end line
  or one more. In every case the comments of the result are a subsequence of the
  comments given (a single forward cursor: a comment is consumed by at most one
  declaration), and every pair of the result is a declaration with a comment that ends at
  or before it, on its start line or the line before. A declaration may get several
  comments.
\<close>

theorem addDocComments_forward_cursor:
  "(endSorted comments \<longrightarrow> addDocComments decls comments = associate decls comments) \<and>
   subseq (map Comment (addDocComments decls comments)) comments \<and>
   (\<forall>dc \<in> set (addDocComments decls comments).
      Decl dc \<in> set decls \<and> Comment dc \<in> set comments \<and>
      \<not> less_loc (NLoc (Decl dc)) (commEndLoc (Comment dc)) \<and>
      adopts (Decl dc) (Comment dc))"
  using addDocComments_associate [of comments decls]
    subseq_addDocComments [of decls comments]
    addDocComments_sound [of _ decls comments]
  by blast

theorem addDocComments_forward_cursor_witness:
  "endSorted [comment_a, comment_y] \<and>
   addDocComments [decl_x] [comment_a, comment_y] = associate [decl_x] [comment_a, comment_y] \<and>
   \<lparr>Decl = decl_x, Comment = comment_y\<rparr> \<in> set (addDocComments [decl_x] [comment_a, comment_y]) \<and>
   adopts decl_x comment_y"
proof -
  have h: "endSorted [comment_a, comment_y]"
    by (simp add: endSorted_def example_defs loc_defs)
  have m: "\<lparr>Decl = decl_x, Comment = comment_y\<rparr> \<in> set (addDocComments [decl_x] [comment_a, comment_y])"
    by (simp add: example_defs loc_defs)
  from addDocComments_forward_cursor [of "[comment_a, comment_y]" "[decl_x]"] h m
  show ?thesis by fastforce
qed

text \<open>
  The claim as stated fails: with \<^verbatim>\<open>//a\<close> on line 1 and
  \<^verbatim>\<open>/* y */ int x;\<close> on line 2, the comments are in the order of their positions and
  the declaration \<open>x\<close> is paired with both of them, the earlier one included.
\<close>

theorem addDocComments_two_comments:
  "less_loc (Loc comment_a) (Loc comment_y) \<and>
   addDocComments [decl_x] [comment_a, comment_y] =
     [\<lparr>Decl = decl_x, Comment = comment_a\<rparr>, \<lparr>Decl = decl_x, Comment = comment_y\<rparr>]"
  by (simp add: example_defs loc_defs)

subsection \<open>C2: extracting and injecting again\<close>

text \<open>
  C2, as amended. Injecting the mapping extracted from a file into that same file writes
  every original line, unmodified and in order (the original lines are a subsequence of
  the lines written). Every global declaration whose identifier is in the extracted
  mapping gets an insertion for its start line, also when the comment already stands
  above the declaration; every insertion is for the start line of a global declaration
  and is the normalized text of a comment that the extraction attached to a declaration
  of the same identifier. The lines written are the original lines exactly when no line
  of the file gets an insertion.
\<close>

theorem roundtrip_inserts_again:
  "subseq (Split buf) (roundtripLines comments root buf) \<and>
   (roundtripLines comments root buf = Split buf \<longleftrightarrow>
      (\<forall>i < length (Split buf). roundtripInsertions comments root (of_nat (i + 1)) = None)) \<and>
   (\<forall>l c. roundtripInsertions comments root l = Some c \<longrightarrow>
      (\<exists>decl \<in> set (findGlobalDecls root).
       \<exists>dc \<in> set (addDocComments (findDecls root) (mergeLineComments comments)).
         Line (NLoc decl) = l \<and> Spelling (Decl dc) = Spelling decl \<and>
         c = normalizeComment (Lit (Comment dc)))) \<and>
   (\<forall>decl \<in> set (findGlobalDecls root).
      extracted comments root (Spelling decl) \<noteq> None \<longrightarrow>
        roundtripInsertions comments root (Line (NLoc decl)) \<noteq> None)"
proof (intro conjI allI impI ballI)
  fix decl
  assume "decl \<in> set (findGlobalDecls root)"
    and "extracted comments root (Spelling decl) \<noteq> None"
  then show "roundtripInsertions comments root (Line (NLoc decl)) \<noteq> None"
    unfolding roundtripInsertions_def by (rule lineComments_dom)
next
  show "subseq (Split buf) (roundtripLines comments root buf)"
    unfolding roundtripLines_def by (rule emitLines_subseq)
next
  show "roundtripLines comments root buf = Split buf \<longleftrightarrow>
      (\<forall>i < length (Split buf). roundtripInsertions comments root (of_nat (i + 1)) = None)"
    unfolding roundtripLines_def
    using emitLines_same_iff [of "roundtripInsertions comments root" 0 "Split buf"] by simp
next
  fix l c
  assume "roundtripInsertions comments root l = Some c"
  then obtain decl comment where d: "decl \<in> set (findGlobalDecls root)"
    and m: "extracted comments root (Spelling decl) = Some comment"
    and l: "Line (NLoc decl) = l" and c: "c = normalizeComment comment"
    unfolding roundtripInsertions_def by (blast dest: lineComments_Some)
  from m obtain dc where "dc \<in> set (addDocComments (findDecls root) (mergeLineComments comments))"
    and "Spelling (Decl dc) = Spelling decl" and "Lit (Comment dc) = comment"
    by (blast dest: extracted_Some)
  with d l c show "\<exists>decl \<in> set (findGlobalDecls root).
        \<exists>dc \<in> set (addDocComments (findDecls root) (mergeLineComments comments)).
          Line (NLoc decl) = l \<and> Spelling (Decl dc) = Spelling decl \<and>
          c = normalizeComment (Lit (Comment dc))"
    by blast
qed

theorem roundtrip_inserts_again_witness:
  "roundtripInsertions foo_comments foo_root 2 = Some ''// does foo'' \<and>
   subseq (Split foo_src) (roundtripLines foo_comments foo_root foo_src) \<and>
   roundtripLines foo_comments foo_root foo_src \<noteq> Split foo_src \<and>
   (\<exists>decl \<in> set (findGlobalDecls foo_root).
    \<exists>dc \<in> set (addDocComments (findDecls foo_root) (mergeLineComments foo_comments)).
      Line (NLoc decl) = 2 \<and> Spelling (Decl dc) = Spelling decl \<and>
      ''// does foo'' = normalizeComment (Lit (Comment dc)))"
proof -
  have h: "roundtripInsertions foo_comments foo_root 2 = Some ''// does foo''"
    by (simp add: roundtripInsertions_def extracted_def lineComments_def findGlobalDecls_def
        findDecls_def sortDecls_def isDecl_def mergeLineComments_def storeDocComments_def
        storeDocComment_def Let_def normalizeComment_def normalizeLine_def HasPrefix_def
        example_defs loc_defs)
  have n: "length (Split foo_src) = 3"
    by (simp add: foo_src_def newline_def)
  note t = roundtrip_inserts_again [of foo_src foo_comments foo_root]
  from t have sub: "subseq (Split foo_src) (roundtripLines foo_comments foo_root foo_src)"
    by (rule conjunct1)
  from t have same: "roundtripLines foo_comments foo_root foo_src = Split foo_src \<longleftrightarrow>
      (\<forall>i < length (Split foo_src).
         roundtripInsertions foo_comments foo_root (of_nat (i + 1)) = None)"
    by (elim conjE)
  from t have src: "\<forall>l c. roundtripInsertions foo_comments foo_root l = Some c \<longrightarrow>
      (\<exists>decl \<in> set (findGlobalDecls foo_root).
       \<exists>dc \<in> set (addDocComments (findDecls foo_root) (mergeLineComments foo_comments)).
         Line (NLoc decl) = l \<and> Spelling (Decl dc) = Spelling decl \<and>
         c = normalizeComment (Lit (Comment dc)))"
    by (elim conjE)
  have ne: "roundtripLines foo_comments foo_root foo_src \<noteq> Split foo_src"
  proof
    assume "roundtripLines foo_comments foo_root foo_src = Split foo_src"
    with same have "\<forall>i < length (Split foo_src).
         roundtripInsertions foo_comments foo_root (of_nat (i + 1)) = None"
      by (rule iffD1)
    then have "1 < length (Split foo_src) \<longrightarrow>
         roundtripInsertions foo_comments foo_root (of_nat (1 + 1)) = None"
      by (rule spec)
    with h n show False by simp
  qed
  have "\<exists>decl \<in> set (findGlobalDecls foo_root).
       \<exists>dc \<in> set (addDocComments (findDecls foo_root) (mergeLineComments foo_comments)).
         Line (NLoc decl) = 2 \<and> Spelling (Decl dc) = Spelling decl \<and>
         ''// does foo'' = normalizeComment (Lit (Comment dc))"
    by (rule src [rule_format, OF h])
  with h sub ne show ?thesis by (intro conjI)
qed

text \<open>
  The claim as stated fails: for \<^verbatim>\<open>// does foo\<close> above \<^verbatim>\<open>int foo() {}\<close> the
  extracted mapping holds the comment for \<open>foo\<close>, and injecting it into the unmodified
  file gives a text that is not the original one.
\<close>

theorem roundtrip_not_identical:
  "extracted foo_comments foo_root ''foo'' = Some ''// does foo'' \<and>
   fst (addComments foo_src foo_root (extracted foo_comments foo_root)) =
     ''// does foo\<newline>// does foo\<newline>int foo() {}\<newline>\<newline>'' \<and>
   fst (addComments foo_src foo_root (extracted foo_comments foo_root)) \<noteq> foo_src"
  by (simp add: addComments_def extracted_def lineComments_def findGlobalDecls_def findDecls_def
      sortDecls_def isDecl_def mergeLineComments_def storeDocComments_def storeDocComment_def
      Let_def written_def normalizeComment_def normalizeLine_def HasPrefix_def
      example_defs loc_defs)

subsection \<open>C3: merging consecutive line comments\<close>

text \<open>
  C3. The claim asks that block comments are never merged and that every comment outside
  a run comes out unchanged. \<open>mergeLineComments\<close> misses it on the position-ordered
  comments of \<^verbatim>\<open>//a\<close> on line 1 and \<^verbatim>\<open>/* y */ //b\<close> on line 2: the inner
  loop does not stop at the block comment, merges \<^verbatim>\<open>//b\<close> into \<^verbatim>\<open>//a\<close> and
  skips one comment, so the block comment is lost and \<^verbatim>\<open>//b\<close> comes out a second
  time on its own.
\<close>

theorem mergeLineComments_drops_block:
  "less_loc (Loc comment_a) (Loc comment_y) \<and> less_loc (Loc comment_y) (Loc comment_b) \<and>
   mergeLineComments [comment_a, comment_y, comment_b] =
     [\<lparr>Lit = ''//a\<newline>//b'', Loc = at 1 1\<rparr>, comment_b]"
  by (simp add: mergeLineComments_def isConsequtiveLineComments_def mergeLineComment_def
      HasPrefix_def example_defs loc_defs)

subsection \<open>C4: an error on one source file\<close>

text \<open>
  C4, as amended. In the extractor an error on one source file (the comment scan fails, or
  the external parser fails) is fatal: when the files before it were processed, the run
  ends in \<open>log.Fatalf\<close> with that error, whatever files follow, and the mapping is not
  written.
\<close>

theorem main_cdoc2json_fatal:
  assumes "parseAll parseComments ParseFile srcPaths (Map.empty, []) = Inr st"
    and "parseComments srcPath = Inl err \<or>
         (\<exists>comments. parseComments srcPath = Inr comments \<and> ParseFile srcPath = Inl err)"
  shows "main_cdoc2json parseComments ParseFile WriteFile (srcPaths @ srcPath # rest) = Fatal err"
proof -
  from assms(2) have "parse parseComments ParseFile srcPath st = Inl err"
    by (auto simp: parse_def)
  with assms(1) have "parseAll parseComments ParseFile (srcPaths @ srcPath # rest) (Map.empty, []) = Inl err"
    by (simp add: parseAll_append)
  then show ?thesis by (simp add: main_cdoc2json_def)
qed

theorem main_cdoc2json_fatal_witness:
  "parseAll scan_bad_first parser_ok [''ok.h''] (Map.empty, []) = Inr (Map.empty, []) \<and>
   scan_bad_first ''bad.h'' = Inl ''open bad.h: no such file'' \<and>
   main_cdoc2json scan_bad_first parser_ok write_ok ([''ok.h''] @ ''bad.h'' # [''last.h'']) =
     Fatal ''open bad.h: no such file''"
proof -
  have h1: "parseAll scan_bad_first parser_ok [''ok.h''] (Map.empty, []) = Inr (Map.empty, [])"
    by (simp add: parse_def storeDocComments_def findDecls_def sortDecls_def
        mergeLineComments_def example_defs)
  have h2: "scan_bad_first ''bad.h'' = Inl ''open bad.h: no such file''"
    by (simp add: example_defs)
  from h2 have h3: "scan_bad_first ''bad.h'' = Inl ''open bad.h: no such file'' \<or>
      (\<exists>comments. scan_bad_first ''bad.h'' = Inr comments \<and> parser_ok ''bad.h'' = Inl ''open bad.h: no such file'')"
    by simp
  from main_cdoc2json_fatal [OF h1 h3] h1 h2 show ?thesis by simp
qed

text \<open>
  The claim as stated fails: the scan of \<^verbatim>\<open>bad.h\<close> fails, \<^verbatim>\<open>ok.h\<close> alone would
  be processed without error, and the run over both ends in \<open>log.Fatalf\<close>.
\<close>

theorem main_cdoc2json_aborts:
  "parse scan_bad_first parser_ok ''ok.h'' (no_docs, []) = Inr (no_docs, []) \<and>
   main_cdoc2json scan_bad_first parser_ok write_ok [''ok.h''] = Written no_docs [] \<and>
   main_cdoc2json scan_bad_first parser_ok write_ok [''bad.h'', ''ok.h''] =
     Fatal ''open bad.h: no such file''"
  by (simp add: main_cdoc2json_def parse_def storeDocComments_def findDecls_def sortDecls_def
      mergeLineComments_def example_defs)

subsection \<open>C5: the change flag when nothing is inserted\<close>

text \<open>
  C5. The claim asks that \<open>addComments\<close> returns the original text and \<open>change = false\<close>
  when no identifier of the mapping matches a declaration of the file. On the file
  \<^verbatim>\<open>int x;\<close> with a mapping for \<open>y\<close> only, the code returns the text with one
  more newline at its end and \<open>change = true\<close>.
\<close>

theorem addComments_no_match_changes:
  "findGlobalDecls plain_root = [Node Cursor_VarDecl ''x'' (at 1 5) []] \<and>
   other_docs ''x'' = None \<and>
   addComments plain_src plain_root other_docs = (''int x;\<newline>\<newline>'', True)"
  by (simp add: addComments_def findGlobalDecls_def lineComments_def written_def isDecl_def
      example_defs newline_def)

subsection \<open>C6: the warning when a comment is stored\<close>

text \<open>
  C6, as amended. Storing a pair writes the warning (with the identifier, the old and the
  new value) if and only if the identifier is already present, whatever its old value,
  also when the old value equals the new one; in every case the new value is stored
  under the identifier.
\<close>

theorem storeDocComment_warns_when_present:
  "fst (storeDocComment (m, ws) dc) = m(Spelling (Decl dc) \<mapsto> Lit (Comment dc)) \<and>
   (snd (storeDocComment (m, ws) dc) \<noteq> ws \<longleftrightarrow> Spelling (Decl dc) \<in> dom m) \<and>
   (\<forall>old. m (Spelling (Decl dc)) = Some old \<longrightarrow>
      snd (storeDocComment (m, ws) dc) =
        ws @ [AlreadyPresent (Spelling (Decl dc)) old (Lit (Comment dc))])"
  by (auto simp: storeDocComment_def Let_def split: option.splits)

theorem storeDocComment_warns_when_present_witness:
  "foo_docs (Spelling (Decl foo_docComment)) = Some ''// does foo'' \<and>
   snd (storeDocComment (foo_docs, []) foo_docComment) =
     [] @ [AlreadyPresent (Spelling (Decl foo_docComment)) ''// does foo'' (Lit (Comment foo_docComment))] \<and>
   fst (storeDocComment (foo_docs, []) foo_docComment) ''foo'' = Some ''// does foo''"
proof -
  have h: "foo_docs (Spelling (Decl foo_docComment)) = Some ''// does foo''"
    by (simp add: example_defs)
  from storeDocComment_warns_when_present [of foo_docs "[]" foo_docComment] h
  show ?thesis by (simp add: foo_docComment_def foo_decl_def)
qed

text \<open>
  The claim as stated fails: the mapping holds \<^verbatim>\<open>// does foo\<close> for \<open>foo\<close>, the same
  comment is stored again, and the warning is written although the value is not
  different.
\<close>

theorem storeDocComment_same_value_warns:
  "foo_docs (Spelling (Decl foo_docComment)) = Some (Lit (Comment foo_docComment)) \<and>
   snd (storeDocComment (foo_docs, []) foo_docComment) =
     [AlreadyPresent ''foo'' ''// does foo'' ''// does foo'']"
  by (simp add: storeDocComment_def Let_def example_defs)

subsection \<open>C7: the declarations that are collected\<close>

text \<open>
  C7, as amended. \<open>findDecls\<close> of the extractor returns exactly the variable and function
  declarations among all nodes of the tree, at any depth, sorted ascending by source
  position (line, then column). \<open>findGlobalDecls\<close> of the injector returns exactly the
  variable and function declarations among the direct children of the file's root or,
  when the root has namespace children, of the last of them (of the namespace, when the
  top level is exactly a namespace wrapper), in the order of the tree and not sorted;
  deeper nesting is ignored there.
\<close>

theorem findDecls_whole_tree_sorted:
  "mset (findDecls root) = mset (filter isDecl (Walk root)) \<and>
   sorted_wrt (\<lambda>a b. posLe (NLoc a) (NLoc b)) (findDecls root) \<and>
   findGlobalDecls root = filter isDecl (Children (globalScope root)) \<and>
   (\<forall>ns. Children root = [ns] \<and> Kind ns = Cursor_Namespace \<longrightarrow>
      findGlobalDecls root = filter isDecl (Children ns))"
proof -
  have "findGlobalDecls root = filter isDecl (Children ns)"
    if "Children root = [ns]" and "Kind ns = Cursor_Namespace" for ns
    using that by (simp add: findGlobalDecls_scope globalScope_def)
  then show ?thesis
    by (simp add: findDecls_def mset_sortDecls sorted_sortDecls findGlobalDecls_scope)
qed

theorem findDecls_whole_tree_sorted_witness:
  "Children namespace_root = [Node Cursor_Namespace ''ns'' (at 1 1) [global_early, func_f]] \<and>
   findGlobalDecls namespace_root = [global_early, func_f] \<and>
   set (findDecls namespace_root) = {global_early, func_f, local_y}"
proof -
  have h: "Children namespace_root = [Node Cursor_Namespace ''ns'' (at 1 1) [global_early, func_f]]
      \<and> Kind (Node Cursor_Namespace ''ns'' (at 1 1) [global_early, func_f]) = Cursor_Namespace"
    by (simp add: namespace_root_def translationUnit_def)
  have w: "filter isDecl (Walk namespace_root) = [global_early, func_f, local_y]"
    by (simp add: isDecl_def example_defs)
  have d: "filter isDecl [global_early, func_f] = [global_early, func_f]"
    by (simp add: isDecl_def example_defs)
  from findDecls_whole_tree_sorted [of namespace_root]
  have "mset (findDecls namespace_root) = mset (filter isDecl (Walk namespace_root))"
    and "findGlobalDecls namespace_root =
      filter isDecl (Children (Node Cursor_Namespace ''ns'' (at 1 1) [global_early, func_f]))"
    using h by blast+
  then have "set (findDecls namespace_root) = set [global_early, func_f, local_y]"
    and "findGlobalDecls namespace_root = [global_early, func_f]"
    unfolding w using d by (metis set_mset_mset, simp)
  with h show ?thesis by auto
qed

text \<open>
  The claim as stated fails: \<open>findDecls\<close> returns the local variable \<open>y\<close> of the
  function \<open>f\<close>, which is not a direct child of the top level, and \<open>findGlobalDecls\<close>
  returns two globals in the order of the tree, the later position first.
\<close>

theorem findDecls_nested_unsorted:
  "Children nested_root = [func_f] \<and>
   findDecls nested_root = [func_f, local_y] \<and>
   findGlobalDecls unordered_root = [global_late, global_early] \<and>
   less_loc (NLoc global_early) (NLoc global_late)"
  by (simp add: findDecls_def sortDecls_def findGlobalDecls_def isDecl_def example_defs loc_defs)

subsection \<open>C8: normalizing a stored comment\<close>

text \<open>
  C8. \<open>normalizeComment\<close> keeps the number of lines and their order; a line that begins
  with \<open>///\<close> loses exactly its first slash, so that it begins with \<open>//\<close>, and every
  other line is copied as it is.
\<close>

theorem normalizeComment_lines:
  "length (Split (normalizeComment comment)) = length (Split comment) \<and>
   (\<forall>i < length (Split comment).
      Split (normalizeComment comment) ! i =
        (if take 3 (Split comment ! i) = ''///'' then drop 1 (Split comment ! i)
         else Split comment ! i)) \<and>
   (\<forall>i < length (Split comment).
      take 3 (Split comment ! i) = ''///'' \<longrightarrow>
        take 2 (Split (normalizeComment comment) ! i) = ''//'' \<and>
        CHR ''/'' # Split (normalizeComment comment) ! i = Split comment ! i)"
proof -
  have eq: "Split (normalizeComment comment) = map normalizeLine (Split comment)"
    by (rule Split_normalizeComment)
  have pre: "take 2 (drop (Suc 0) l) = ''//'' \<and> CHR ''/'' # drop (Suc 0) l = l" if "take 3 l = ''///''" for l :: string
  proof -
    from that obtain r where "l = ''///'' @ r"
      by (metis append_take_drop_id)
    then show ?thesis by simp
  qed
  have nl: "normalizeLine l = (if take 3 l = ''///'' then drop 1 l else l)" for l
    by (simp add: normalizeLine_def HasPrefix_def numeral_3_eq_3)
  show ?thesis
    unfolding eq by (auto simp: nl pre)
qed

theorem normalizeComment_lines_witness:
  "Split ''/// a\<newline>//// b\<newline>// c'' = [''/// a'', ''//// b'', ''// c''] \<and>
   Split (normalizeComment ''/// a\<newline>//// b\<newline>// c'') ! 0 = ''// a'' \<and>
   Split (normalizeComment ''/// a\<newline>//// b\<newline>// c'') ! 1 = ''/// b'' \<and>
   Split (normalizeComment ''/// a\<newline>//// b\<newline>// c'') ! 2 = ''// c''"
proof -
  have s: "Split ''/// a\<newline>//// b\<newline>// c'' = [''/// a'', ''//// b'', ''// c'']"
    by (simp add: newline_def)
  note t = normalizeComment_lines [of "''/// a\<newline>//// b\<newline>// c''", unfolded s,
      THEN conjunct2, THEN conjunct1, rule_format]
  have "Split (normalizeComment ''/// a\<newline>//// b\<newline>// c'') ! 0 = ''// a''"
    using t [of 0] by simp
  moreover have "Split (normalizeComment ''/// a\<newline>//// b\<newline>// c'') ! 1 = ''/// b''"
    using t [of 1] by simp
  moreover have "Split (normalizeComment ''/// a\<newline>//// b\<newline>// c'') ! 2 = ''// c''"
    using t [of 2] by simp
  ultimately show ?thesis using s by simp
qed

subsection \<open>C9: the text written when nothing is inserted\<close>

text \<open>
  C9. \<open>addComments\<close> writes strings, each followed by a newline, among them every
  piece of the split text in order; when the comment-insertion map is empty, the returned
  text is the original text with one newline appended, and the change flag is true.
\<close>

theorem addComments_appends_newline:
  "fst (addComments buf fileRoot docComments) =
     concat (map (\<lambda>line. line @ [newline])
       (emitLines (lineComments docComments (findGlobalDecls fileRoot)) 0 (Split buf))) \<and>
   subseq (Split buf)
     (emitLines (lineComments docComments (findGlobalDecls fileRoot)) 0 (Split buf)) \<and>
   (lineComments docComments (findGlobalDecls fileRoot) = Map.empty \<longrightarrow>
      addComments buf fileRoot docComments = (buf @ [newline], True))"
proof (intro conjI impI)
  show "fst (addComments buf fileRoot docComments) =
     concat (map (\<lambda>line. line @ [newline])
       (emitLines (lineComments docComments (findGlobalDecls fileRoot)) 0 (Split buf)))"
    by (simp add: addComments_written written_def)
next
  show "subseq (Split buf)
     (emitLines (lineComments docComments (findGlobalDecls fileRoot)) 0 (Split buf))"
    by (rule emitLines_subseq)
next
  assume "lineComments docComments (findGlobalDecls fileRoot) = Map.empty"
  then show "addComments buf fileRoot docComments = (buf @ [newline], True)"
    by (simp add: addComments_def emitLines_empty written_Split)
qed

theorem addComments_appends_newline_witness:
  "lineComments no_docs (findGlobalDecls plain_root) = Map.empty \<and>
   addComments plain_src plain_root no_docs = (''int x;\<newline>\<newline>'', True)"
proof -
  have h: "lineComments no_docs (findGlobalDecls plain_root) = Map.empty"
    by (simp add: lineComments_def findGlobalDecls_def isDecl_def example_defs)
  from addComments_appends_newline [of plain_src plain_root no_docs] h
  have "addComments plain_src plain_root no_docs = (plain_src @ [newline], True)"
    by (elim conjE impE)
  with h show ?thesis
    by (simp add: plain_src_def newline_def)
qed

subsection \<open>C10: the line difference does not wrap\<close>

text \<open>
  C10. Where \<open>addDocComments\<close> evaluates \<open>decl.Loc.Line - commEndLoc.Line\<close>, the guard
  \<open>less(decl.Loc, commEndLoc)\<close> was false; then the declaration's line is not below the
  comment's end line, and the 32-bit difference is the exact difference of the two line
  numbers.
\<close>

theorem sub_no_wrap:
  "\<not> less_loc (NLoc decl) (commEndLoc comment) \<Longrightarrow>
     Line (commEndLoc comment) \<le> Line (NLoc decl) \<and>
     uint (Line (NLoc decl) - Line (commEndLoc comment)) =
       uint (Line (NLoc decl)) - uint (Line (commEndLoc comment))"
proof -
  assume "\<not> less_loc (NLoc decl) (commEndLoc comment)"
  then have le: "Line (commEndLoc comment) \<le> Line (NLoc decl)"
    by (auto simp: less_loc_def split: if_splits)
  then have "uint (Line (commEndLoc comment)) \<le> uint (Line (NLoc decl))"
    by (simp add: word_le_def)
  then have "uint (Line (NLoc decl) - Line (commEndLoc comment)) =
       uint (Line (NLoc decl)) - uint (Line (commEndLoc comment))"
    by (simp add: uint_sub_lem)
  with le show ?thesis by simp
qed

theorem sub_no_wrap_witness:
  "\<not> less_loc (NLoc decl_line3) (commEndLoc comment_two_lines) \<and>
   uint (Line (NLoc decl_line3) - Line (commEndLoc comment_two_lines)) = 1"
proof -
  have h: "\<not> less_loc (NLoc decl_line3) (commEndLoc comment_two_lines)"
    by (simp add: example_defs loc_defs)
  from sub_no_wrap [OF h] h show ?thesis
    by (simp add: example_defs loc_defs)
qed

end
